theory Spec2Isabelle
  imports Main
begin

section \<open>Strings and runes\<close>

text \<open>
  A Go string is read by \<^verbatim>\<open>for _, r := range s\<close>, which yields its runes (Unicode code
  points, type \<^verbatim>\<open>rune = int32\<close>) one per iteration. The model takes a string as the
  list of runes that \<^verbatim>\<open>range\<close> yields. A rune is a code point between 0 and 0x10FFFF,
  so the subtraction \<^verbatim>\<open>r - last\<close> of \<^verbatim>\<open>Check\<close> never wraps and is the subtraction of
  \<open>int\<close>.
\<close>

type_synonym rune = int
type_synonym gostring = "rune list"

definition runes :: "string \<Rightarrow> gostring" where
  "runes s = map (\<lambda>c. of_char c) s"

abbreviation rn :: "char \<Rightarrow> rune" where
  "rn c \<equiv> of_char c"

text \<open>
  The number of bytes of a rune in UTF-8, and the byte offset of the rune at index \<open>i\<close>
  of a string that is valid UTF-8.
\<close>

definition utf8_width :: "rune \<Rightarrow> nat" where
  "utf8_width r = (if r < 0x80 then 1 else if r < 0x800 then 2 else if r < 0x10000 then 3 else 4)"

definition byte_index :: "gostring \<Rightarrow> nat \<Rightarrow> nat" where
  "byte_index s i = sum_list (map utf8_width (take i s))"

section \<open>check.go\<close>

datatype ErrKind =
    ErrUnexpectedRune
  | ErrNegativeRange
  | ErrDualStar
  | ErrEmptyClass
  | ErrEmptyGlob
  | ErrIncompleteClass
  | ErrTrailingEscape
  | ErrTrailingWhitespace

record BadPatternError =
  Err :: ErrKind
  Column :: int
  Line :: int
  File :: gostring

subsection \<open>Check\<close>

datatype State =
    Initial
  | Regular
  | ClassBegin
  | ClassMiddle
  | ClassRange
  | ClassRequire
  | Star
  | DualStar
  | Escape
  | Whitespace

text \<open>The local variables of \<^verbatim>\<open>Check\<close>: \<^verbatim>\<open>column\<close>, \<^verbatim>\<open>last\<close>, \<^verbatim>\<open>state\<close>, \<^verbatim>\<open>next\<close>.\<close>

record checker =
  column :: int
  last_r :: rune
  state :: State
  next_s :: State

definition checker0 :: checker where
  "checker0 = \<lparr>column = - 1, last_r = 0, state = Initial, next_s = Initial\<rparr>"

text \<open>The closure \<^verbatim>\<open>give\<close> reads \<^verbatim>\<open>column\<close> when it is called.\<close>

definition give :: "checker \<Rightarrow> ErrKind \<Rightarrow> BadPatternError" where
  "give c e = \<lparr>Err = e, Column = column c, Line = - 1, File = []\<rparr>"

text \<open>The inner switch of \<^verbatim>\<open>case Regular\<close>, also reached from \<^verbatim>\<open>case Initial\<close> by fallthrough.\<close>

definition caseRegular :: "checker \<Rightarrow> rune \<Rightarrow> checker" where
  "caseRegular c r =
     (if r = rn CHR ''['' then c\<lparr>state := ClassBegin\<rparr>
      else if r = rn CHR ''*'' then c\<lparr>state := Star\<rparr>
      else if r = rn CHR 0x5C then c\<lparr>state := Escape, next_s := Regular\<rparr>
      else if r = rn CHR '' '' \<or> r = rn CHR 0x09 \<or> r = rn CHR 0x0A then c\<lparr>state := Whitespace\<rparr>
      else c)"

text \<open>The inner switch of \<^verbatim>\<open>case ClassMiddle\<close>, also reached from \<^verbatim>\<open>case ClassRequire\<close>.\<close>

definition caseClassMiddle :: "checker \<Rightarrow> rune \<Rightarrow> checker" where
  "caseClassMiddle c r =
     (if r = rn CHR 0x5C then c\<lparr>state := Escape, next_s := ClassMiddle\<rparr>
      else if r = rn CHR '']'' then c\<lparr>state := Regular\<rparr>
      else if r = rn CHR ''-'' then c\<lparr>state := ClassRange\<rparr>
      else c\<lparr>last_r := r\<rparr>)"

text \<open>One iteration of the loop after \<^verbatim>\<open>column++\<close>: the outer switch on \<^verbatim>\<open>state\<close>.\<close>

definition body :: "checker \<Rightarrow> rune \<Rightarrow> ErrKind + checker" where
  "body c r =
     (case state c of
        Initial \<Rightarrow> Inr (caseRegular (c\<lparr>state := Regular\<rparr>) r)
      | Regular \<Rightarrow> Inr (caseRegular c r)
      | ClassBegin \<Rightarrow>
          (if r = rn CHR '']'' then Inl ErrEmptyClass
           else if r = rn CHR ''-'' then Inl ErrUnexpectedRune
           else if r = rn CHR 0x5C then Inr (c\<lparr>state := Escape, next_s := ClassRequire\<rparr>)
           else Inr (c\<lparr>last_r := r, state := ClassMiddle\<rparr>))
      | ClassRequire \<Rightarrow>
          (if r = rn CHR ''-'' then Inl ErrUnexpectedRune
           else Inr (caseClassMiddle (c\<lparr>state := ClassMiddle\<rparr>) r))
      | ClassMiddle \<Rightarrow> Inr (caseClassMiddle c r)
      | ClassRange \<Rightarrow>
          (if r = rn CHR ''-'' \<or> r = rn CHR 0x5C \<or> r = rn CHR '']'' then Inl ErrUnexpectedRune
           else if r - last_r c < 0 then Inl ErrNegativeRange
           else Inr (c\<lparr>state := ClassRequire\<rparr>))
      | Escape \<Rightarrow> Inr (c\<lparr>state := next_s c\<rparr>)
      | Star \<Rightarrow>
          (if r = rn CHR ''*'' then Inr (c\<lparr>state := DualStar\<rparr>)
           else Inr (c\<lparr>state := Regular\<rparr>))
      | DualStar \<Rightarrow> Inl ErrDualStar
      | Whitespace \<Rightarrow>
          (if r = rn CHR '' '' \<or> r = rn CHR 0x09 \<or> r = rn CHR 0x0A then Inr c
           else Inr (c\<lparr>state := Regular\<rparr>)))"

text \<open>The loop \<^verbatim>\<open>for _, r := range glob\<close>; an error returns from \<^verbatim>\<open>Check\<close> at once.\<close>

fun loop :: "checker \<Rightarrow> gostring \<Rightarrow> BadPatternError + checker" where
  "loop c [] = Inr c"
| "loop c (r # rs) =
     (let c1 = c\<lparr>column := column c + 1\<rparr>
      in case body c1 r of
           Inl e \<Rightarrow> Inl (give c1 e)
         | Inr c2 \<Rightarrow> loop c2 rs)"

text \<open>The switch after the loop.\<close>

definition finish :: "checker \<Rightarrow> BadPatternError option" where
  "finish c =
     (case state c of
        Initial \<Rightarrow> Some (give c ErrEmptyGlob)
      | ClassBegin \<Rightarrow> Some (give c ErrIncompleteClass)
      | ClassMiddle \<Rightarrow> Some (give c ErrIncompleteClass)
      | ClassRange \<Rightarrow> Some (give c ErrIncompleteClass)
      | Escape \<Rightarrow> Some (give c ErrTrailingEscape)
      | Whitespace \<Rightarrow> Some (give c ErrTrailingWhitespace)
      | _ \<Rightarrow> None)"

text \<open>\<^verbatim>\<open>Check\<close>: \<open>None\<close> is the \<^verbatim>\<open>nil\<close> error.\<close>

definition Check :: "gostring \<Rightarrow> BadPatternError option" where
  "Check glob = (case loop checker0 glob of Inl e \<Rightarrow> Some e | Inr c \<Rightarrow> finish c)"

subsection \<open>Clean\<close>

datatype CState = CInitial | CRegular | CEscape | CWhitespace

text \<open>The local variables of \<^verbatim>\<open>Clean\<close>: \<^verbatim>\<open>state\<close>, \<^verbatim>\<open>buf\<close>, \<^verbatim>\<open>sp\<close>.\<close>

record cleaner =
  cstate :: CState
  buf :: gostring
  sp :: gostring

definition cleaner0 :: cleaner where
  "cleaner0 = \<lparr>cstate = CInitial, buf = [], sp = []\<rparr>"

text \<open>The inner switch of \<^verbatim>\<open>case Regular\<close>, also reached from \<^verbatim>\<open>case Initial\<close>.\<close>

definition cleanRegular :: "cleaner \<Rightarrow> rune \<Rightarrow> cleaner" where
  "cleanRegular c r =
     (if r = rn CHR '' '' \<or> r = rn CHR 0x09 \<or> r = rn CHR 0x0A
        then c\<lparr>cstate := CWhitespace, sp := sp c @ [r]\<rparr>
      else if r = rn CHR 0x5C then c\<lparr>cstate := CEscape\<rparr>
      else c\<lparr>buf := buf c @ [r]\<rparr>)"

text \<open>
  One iteration of the loop. \<open>Inl\<close> is the early \<^verbatim>\<open>return ""\<close> of a comment line. In
  \<^verbatim>\<open>case Whitespace\<close> the default branch writes \<^verbatim>\<open>sp\<close> to \<^verbatim>\<open>buf\<close> and resets \<^verbatim>\<open>sp\<close>;
  it has no \<^verbatim>\<open>fallthrough\<close> and no write of \<^verbatim>\<open>r\<close>.
\<close>

definition cleanBody :: "cleaner \<Rightarrow> rune \<Rightarrow> gostring + cleaner" where
  "cleanBody c r =
     (case cstate c of
        CInitial \<Rightarrow>
          (if r = rn CHR ''#'' then Inl []
           else Inr (cleanRegular (c\<lparr>cstate := CRegular\<rparr>) r))
      | CRegular \<Rightarrow> Inr (cleanRegular c r)
      | CEscape \<Rightarrow> Inr (c\<lparr>cstate := CRegular, buf := buf c @ [rn CHR 0x5C, r]\<rparr>)
      | CWhitespace \<Rightarrow>
          (if r = rn CHR '' '' \<or> r = rn CHR 0x09 \<or> r = rn CHR 0x0A
             then Inr (c\<lparr>sp := sp c @ [r]\<rparr>)
           else Inr (c\<lparr>cstate := CRegular, buf := buf c @ sp c, sp := []\<rparr>)))"

fun cleanLoop :: "cleaner \<Rightarrow> gostring \<Rightarrow> gostring" where
  "cleanLoop c [] = buf c"
| "cleanLoop c (r # rs) =
     (case cleanBody c r of
        Inl s \<Rightarrow> s
      | Inr c1 \<Rightarrow> cleanLoop c1 rs)"

definition Clean :: "gostring \<Rightarrow> gostring" where
  "Clean s = cleanLoop cleaner0 s"

text \<open>The runes of \<^verbatim>\<open>case ' ', '\t', '\n'\<close>.\<close>

abbreviation is_ws :: "rune \<Rightarrow> bool" where
  "is_ws r \<equiv> r = rn CHR '' '' \<or> r = rn CHR 0x09 \<or> r = rn CHR 0x0A"

text \<open>
  Whether the scan of \<^verbatim>\<open>Clean\<close> over \<open>s\<close>, from the state \<open>c\<close>, takes the default branch
  of \<^verbatim>\<open>case Whitespace\<close> at some rune: a rune that is not whitespace arrives in state
  \<open>CWhitespace\<close>. The scan of a comment line ends at its first rune.
\<close>

fun flushes :: "cleaner \<Rightarrow> gostring \<Rightarrow> bool" where
  "flushes c [] = False"
| "flushes c (r # rs) =
     (case cleanBody c r of
        Inl s \<Rightarrow> False
      | Inr c1 \<Rightarrow> (cstate c = CWhitespace \<and> \<not> is_ws r) \<or> flushes c1 rs)"

text \<open>The state of \<^verbatim>\<open>Clean\<close> in \<^verbatim>\<open>Regular\<close> with both buffers empty.\<close>

abbreviation regular0 :: cleaner where
  "regular0 \<equiv> \<lparr>cstate = CRegular, buf = [], sp = []\<rparr>"

section \<open>Path functions of the Go standard library\<close>

text \<open>
  \<^verbatim>\<open>matcher.go\<close> calls \<^verbatim>\<open>strings.Contains\<close> and, from \<^verbatim>\<open>path/filepath\<close>, \<^verbatim>\<open>Clean\<close>,
  \<^verbatim>\<open>IsAbs\<close>, \<^verbatim>\<open>Join\<close>, \<^verbatim>\<open>Base\<close>, \<^verbatim>\<open>Dir\<close> and \<^verbatim>\<open>Abs\<close>. They belong to the Go standard
  library, not to this repository; they are modelled here as the library documents them on
  a Unix system (separator \<^verbatim>\<open>/\<close>, no volume names).
\<close>

text \<open>\<^verbatim>\<open>strings.Contains(s, "/")\<close>.\<close>

definition containsSep :: "gostring \<Rightarrow> bool" where
  "containsSep s = (rn CHR ''/'' \<in> set s)"

text \<open>The elements of a path between separators, and a path from its elements.\<close>

fun splitSep :: "gostring \<Rightarrow> gostring list" where
  "splitSep [] = [[]]"
| "splitSep (r # rs) =
     (if r = rn CHR ''/'' then [] # splitSep rs
      else (case splitSep rs of [] \<Rightarrow> [[r]] | e # es \<Rightarrow> (r # e) # es))"

fun joinSep :: "gostring list \<Rightarrow> gostring" where
  "joinSep [] = []"
| "joinSep [e] = e"
| "joinSep (e # es) = e @ rn CHR ''/'' # joinSep es"

text \<open>
  \<^verbatim>\<open>filepath.Clean\<close>: empty elements and \<^verbatim>\<open>.\<close> are dropped; \<^verbatim>\<open>..\<close> removes the element
  before it, is dropped at the root of a rooted path, and is kept at the front of a path
  that is not rooted; the empty result is \<^verbatim>\<open>.\<close>. \<open>out\<close> holds the elements kept so far,
  the last one first.
\<close>

fun cleanElems :: "bool \<Rightarrow> gostring list \<Rightarrow> gostring list \<Rightarrow> gostring list" where
  "cleanElems rooted out [] = rev out"
| "cleanElems rooted out (e # es) =
     (if e = [] \<or> e = runes ''.'' then cleanElems rooted out es
      else if e = runes ''..'' then
        (case out of
           [] \<Rightarrow> if rooted then cleanElems rooted out es else cleanElems rooted [e] es
         | x # xs \<Rightarrow>
             if x = runes ''..'' then cleanElems rooted (e # out) es
             else cleanElems rooted xs es)
      else cleanElems rooted (e # out) es)"

definition filepath_IsAbs :: "gostring \<Rightarrow> bool" where
  "filepath_IsAbs path = (case path of [] \<Rightarrow> False | r # _ \<Rightarrow> r = rn CHR ''/'')"

definition filepath_Clean :: "gostring \<Rightarrow> gostring" where
  "filepath_Clean path =
     (let rooted = filepath_IsAbs path;
          out = joinSep (cleanElems rooted [] (splitSep path));
          s = (if rooted then rn CHR ''/'' # out else out)
      in if s = [] then runes ''.'' else s)"

text \<open>\<^verbatim>\<open>filepath.Join(a, b)\<close>, for two elements.\<close>

definition filepath_Join :: "gostring \<Rightarrow> gostring \<Rightarrow> gostring" where
  "filepath_Join a b =
     (if a \<noteq> [] then filepath_Clean (a @ rn CHR ''/'' # b)
      else if b \<noteq> [] then filepath_Clean b
      else [])"

text \<open>\<^verbatim>\<open>filepath.Base\<close>: the last element, after trailing separators are removed.\<close>

definition filepath_Base :: "gostring \<Rightarrow> gostring" where
  "filepath_Base path =
     (if path = [] then runes ''.''
      else let p = rev (dropWhile (\<lambda>r. r = rn CHR ''/'') (rev path));
               b = rev (takeWhile (\<lambda>r. r \<noteq> rn CHR ''/'') (rev p))
           in if b = [] then runes ''/'' else b)"

text \<open>\<^verbatim>\<open>filepath.Dir\<close>: all but the last element, cleaned.\<close>

definition filepath_Dir :: "gostring \<Rightarrow> gostring" where
  "filepath_Dir path = filepath_Clean (rev (dropWhile (\<lambda>r. r \<noteq> rn CHR ''/'') (rev path)))"

section \<open>matcher.go\<close>

subsection \<open>Errors and the world outside\<close>

text \<open>
  The values of type \<^verbatim>\<open>error\<close> that the package handles: its own three, a
  \<^verbatim>\<open>*BadPatternError\<close>, \<^verbatim>\<open>filepath.ErrBadPattern\<close> of the glob primitive, an error of
  the operating system for which \<^verbatim>\<open>os.IsNotExist\<close> holds, and any other error (of the
  operating system, the scanner or the error handler), told by its message.
\<close>

datatype error =
    ErrMissingDir
  | ErrGlobIsPath
  | ErrConfigUnset
  | BadPattern BadPatternError
  | ErrBadPattern
  | ErrNotExist
  | ErrOther string

definition os_IsNotExist :: "error \<Rightarrow> bool" where
  "os_IsNotExist e = (e = ErrNotExist)"

text \<open>
  An opened file, as \<^verbatim>\<open>bufio.Scanner\<close> delivers it: the lines that \<^verbatim>\<open>sc.Text()\<close> returns
  in order, and the value of \<^verbatim>\<open>sc.Err()\<close> when \<^verbatim>\<open>sc.Scan()\<close> has returned false.
\<close>

record osfile =
  lines :: "gostring list"
  scanErr :: "error option"

text \<open>
  The operating system: the result of \<^verbatim>\<open>os.Getwd\<close> and, for each path, the result of
  \<^verbatim>\<open>os.Open\<close>.
\<close>

record OS =
  getwd :: "error + gostring"
  openf :: "gostring \<Rightarrow> error + osfile"

text \<open>\<^verbatim>\<open>filepath.Abs\<close>: an absolute path is cleaned, another one is joined to the working directory.\<close>

definition filepath_Abs :: "OS \<Rightarrow> gostring \<Rightarrow> error + gostring" where
  "filepath_Abs os path =
     (if filepath_IsAbs path then Inr (filepath_Clean path)
      else (case getwd os of
              Inl e \<Rightarrow> Inl e
            | Inr wd \<Rightarrow> Inr (filepath_Join wd path)))"

text \<open>
  The glob primitive \<^verbatim>\<open>filepath.Match(pattern, name)\<close> is a parameter of the model:
  \<open>Inl e\<close> is a returned error, \<open>Inr m\<close> the verdict.
\<close>

type_synonym globmatch = "gostring \<Rightarrow> gostring \<Rightarrow> error + bool"

text \<open>A function of the package that can panic either panics with an error or returns.\<close>

datatype 'a outcome = Panic error | Return 'a

subsection \<open>Matcher and Worker\<close>

record Matcher =
  ErrHandler :: "(error \<Rightarrow> error option) option"
  config :: gostring
  global :: "gostring list"

record Worker =
  cwd :: gostring
  local_w :: "gostring list"
  global_w :: "gostring list"

definition New :: "gostring \<Rightarrow> Matcher" where
  "New cfg = \<lparr>ErrHandler = None, config = cfg, global = []\<rparr>"

subsection \<open>add, addAll and the two Add methods\<close>

text \<open>
  \<^verbatim>\<open>add\<close> and \<^verbatim>\<open>addAll\<close> write through a pointer to the list and return an error: the
  model returns the error (\<open>None\<close> is \<^verbatim>\<open>nil\<close>) and the list as it is after the call.
\<close>

definition add :: "gostring list \<Rightarrow> gostring \<Rightarrow> error option \<times> gostring list" where
  "add list glob =
     (case Check glob of
        Some pe \<Rightarrow> (Some (BadPattern pe), list)
      | None \<Rightarrow>
          if containsSep glob then (Some ErrGlobIsPath, list)
          else (None, list @ [glob]))"

fun addAll :: "gostring list \<Rightarrow> gostring list \<Rightarrow> error option \<times> gostring list" where
  "addAll list [] = (None, list)"
| "addAll list (g # gs) =
     (case add list g of
        (Some err, list1) \<Rightarrow> (Some err, list1)
      | (None, list1) \<Rightarrow> addAll list1 gs)"

definition Matcher_Add :: "Matcher \<Rightarrow> gostring list \<Rightarrow> error option \<times> Matcher" where
  "Matcher_Add m globs = (case addAll (global m) globs of (err, l) \<Rightarrow> (err, m\<lparr>global := l\<rparr>))"

definition Worker_Add :: "Worker \<Rightarrow> gostring list \<Rightarrow> error option \<times> Worker" where
  "Worker_Add w glob = (case addAll (local_w w) glob of (err, l) \<Rightarrow> (err, w\<lparr>local_w := l\<rparr>))"

subsection \<open>AddFile\<close>

text \<open>
  The rewriting of a line that has passed \<^verbatim>\<open>Check\<close>, before it is appended:
  \<^verbatim>\<open>if strings.Contains(s, "/") { s = filepath.Join(base, s) }\<close>.
\<close>

definition anchor :: "gostring \<Rightarrow> gostring \<Rightarrow> gostring" where
  "anchor base s = (if containsSep s then filepath_Join base s else s)"

text \<open>
  The loop \<^verbatim>\<open>for sc.Scan()\<close> of \<^verbatim>\<open>AddFile\<close> over the lines that are left, with the
  counter \<^verbatim>\<open>line\<close> and the worker as they are before the iteration. A line that fails
  \<^verbatim>\<open>Check\<close> returns at once, with the worker as it is then.
\<close>

fun scanLines ::
  "gostring \<Rightarrow> gostring \<Rightarrow> int \<Rightarrow> Worker \<Rightarrow> gostring list \<Rightarrow> BadPatternError option \<times> Worker"
where
  "scanLines base path line w [] = (None, w)"
| "scanLines base path line w (t # ts) =
     (let line1 = line + 1;
          s = Clean t
      in if s = [] then scanLines base path line1 w ts
         else (case Check s of
                 Some pe \<Rightarrow> (Some (pe\<lparr>Line := line1, File := path\<rparr>), w)
               | None \<Rightarrow>
                   scanLines base path line1 (w\<lparr>local_w := local_w w @ [anchor base s]\<rparr>) ts))"

definition Worker_AddFile :: "OS \<Rightarrow> Worker \<Rightarrow> gostring \<Rightarrow> error option \<times> Worker" where
  "Worker_AddFile os w path =
     (case filepath_Abs os path of
        Inl err \<Rightarrow> (Some err, w)
      | Inr abs_p \<Rightarrow>
          (case openf os abs_p of
             Inl err \<Rightarrow> (Some err, w)
           | Inr f \<Rightarrow>
               (case scanLines (filepath_Dir abs_p) path 0 w (lines f) of
                  (Some pe, w1) \<Rightarrow> (Some (BadPattern pe), w1)
                | (None, w1) \<Rightarrow> (scanErr f, w1))))"

definition Worker_Reset :: "Worker \<Rightarrow> Worker" where
  "Worker_Reset w = w\<lparr>local_w := []\<rparr>"

subsection \<open>NewWorker\<close>

text \<open>
  What the loop of \<^verbatim>\<open>NewWorker\<close> does with the error of \<^verbatim>\<open>AddFile\<close>: \<open>Some e\<close> is the
  error that \<^verbatim>\<open>NewWorker\<close> returns, \<open>None\<close> lets the loop go on.
\<close>

definition handle :: "Matcher \<Rightarrow> error option \<Rightarrow> error option" where
  "handle m err =
     (case err of
        None \<Rightarrow> None
      | Some e \<Rightarrow>
          if os_IsNotExist e then None
          else (case ErrHandler m of None \<Rightarrow> None | Some h \<Rightarrow> h e))"

text \<open>
  The loop \<^verbatim>\<open>for { ... }\<close> of \<^verbatim>\<open>NewWorker\<close>, from the directory \<open>dir\<close>. It has no bound in
  the source (from a relative directory it would not end), so the model counts the
  iterations it may still make: \<open>None\<close> is a loop that has not ended within them.
\<close>

fun walk :: "nat \<Rightarrow> OS \<Rightarrow> Matcher \<Rightarrow> gostring \<Rightarrow> Worker \<Rightarrow> (error + Worker) option" where
  "walk 0 os m dir w = None"
| "walk (Suc n) os m dir w =
     (case Worker_AddFile os w (filepath_Join dir (config m)) of
        (err, w1) \<Rightarrow>
          (case handle m err of
             Some e \<Rightarrow> Some (Inl e)
           | None \<Rightarrow>
               let dir1 = filepath_Clean (filepath_Join dir (runes ''..''))
               in if dir1 = runes ''/'' then Some (Inr w1)
                  else walk n os m dir1 w1))"

definition NewWorker :: "nat \<Rightarrow> OS \<Rightarrow> Matcher \<Rightarrow> gostring \<Rightarrow> (error + Worker) option" where
  "NewWorker n os m dir0 =
     (let dir = filepath_Clean dir0
      in if dir = [] then Some (Inl ErrMissingDir)
         else (case (if \<not> filepath_IsAbs dir then filepath_Abs os dir else Inr dir) of
                 Inl err \<Rightarrow> Some (Inl err)
               | Inr dir1 \<Rightarrow>
                   let w = \<lparr>cwd = dir1, local_w = [], global_w = global m\<rparr>
                   in if config m \<noteq> [] then walk n os m dir1 w
                      else Some (Inr w)))"

subsection \<open>match, matchAll and the two Matches methods\<close>

definition match :: "globmatch \<Rightarrow> gostring \<Rightarrow> gostring \<Rightarrow> bool outcome" where
  "match gm pattern s =
     (if pattern = [] then Return False
      else let s1 = (if \<not> containsSep pattern then filepath_Base s else s)
           in (case gm pattern s1 of
                 Inl err \<Rightarrow> Panic err
               | Inr m \<Rightarrow> Return m))"

fun matchAll :: "globmatch \<Rightarrow> gostring list \<Rightarrow> gostring \<Rightarrow> bool outcome" where
  "matchAll gm [] s = Return False"
| "matchAll gm (p # ps) s =
     (case match gm p s of
        Panic err \<Rightarrow> Panic err
      | Return b \<Rightarrow> if b then Return True else matchAll gm ps s)"

definition Matcher_Matches :: "globmatch \<Rightarrow> Matcher \<Rightarrow> gostring \<Rightarrow> bool outcome" where
  "Matcher_Matches gm m path = matchAll gm (global m) (filepath_Base path)"

definition Worker_Matches :: "globmatch \<Rightarrow> Worker \<Rightarrow> gostring \<Rightarrow> bool outcome" where
  "Worker_Matches gm w path0 =
     (let path = filepath_Clean path0
      in if path = [] then Return False
         else let path1 = (if \<not> filepath_IsAbs path
                            then filepath_Clean (filepath_Join (cwd w) path) else path)
              in (case matchAll gm (global_w w) path1 of
                    Panic err \<Rightarrow> Panic err
                  | Return b \<Rightarrow> if b then Return True
                      else (case matchAll gm (local_w w) path1 of
                              Panic err \<Rightarrow> Panic err
                            | Return b1 \<Rightarrow> if b1 then Return True else Return False)))"

subsection \<open>A file system with one file\<close>

text \<open>
  The operating system in which the working directory is \<^verbatim>\<open>/\<close>, the file \<open>name\<close> holds the
  lines \<open>ls\<close>, and no other file exists.
\<close>

definition fs_lines :: "gostring \<Rightarrow> gostring list \<Rightarrow> OS" where
  "fs_lines name ls =
     \<lparr>getwd = Inr (runes ''/''),
      openf = (\<lambda>p. if p = name then Inr \<lparr>lines = ls, scanErr = None\<rparr> else Inl ErrNotExist)\<rparr>"

section \<open>The documented pattern syntax\<close>

text \<open>
  The doc comment of \<^verbatim>\<open>Check\<close> (and the package comment of \<^verbatim>\<open>matcher.go\<close>) gives the
  syntax of a pattern, as \<^verbatim>\<open>filepath.Match\<close> defines it:
  \<^verbatim>\<open>pattern: { term }\<close>;
  \<^verbatim>\<open>term: '*' | '?' | '[' [ '^' ] { character-range } ']' | c | '\\' c\<close>, where the class
  must be non-empty and a plain \<^verbatim>\<open>c\<close> is none of \<^verbatim>\<open>*\<close>, \<^verbatim>\<open>?\<close>, \<^verbatim>\<open>\\<close>, \<^verbatim>\<open>[\<close>;
  \<^verbatim>\<open>character-range: c | '\\' c | lo '-' hi\<close>, where a plain \<^verbatim>\<open>c\<close> is none of
  \<^verbatim>\<open>\\<close>, \<^verbatim>\<open>-\<close>, \<^verbatim>\<open>]\<close>. The predicates below are that grammar, one rule for each
  alternative.
\<close>

inductive class_char :: "gostring \<Rightarrow> bool" where
  plain: "c \<noteq> rn CHR 0x5C \<Longrightarrow> c \<noteq> rn CHR ''-'' \<Longrightarrow> c \<noteq> rn CHR '']'' \<Longrightarrow> class_char [c]"
| quoted: "class_char [rn CHR 0x5C, c]"

inductive character_range :: "gostring \<Rightarrow> bool" where
  single: "class_char x \<Longrightarrow> character_range x"
| lo_hi: "class_char lo \<Longrightarrow> class_char hi \<Longrightarrow> character_range (lo @ rn CHR ''-'' # hi)"

inductive character_ranges :: "gostring \<Rightarrow> bool" where
  one: "character_range x \<Longrightarrow> character_ranges x"
| more: "character_range x \<Longrightarrow> character_ranges y \<Longrightarrow> character_ranges (x @ y)"

inductive glob_term :: "gostring \<Rightarrow> bool" where
  star: "glob_term [rn CHR ''*'']"
| query: "glob_term [rn CHR ''?'']"
| cls: "character_ranges b \<Longrightarrow> glob_term (rn CHR ''['' # b @ [rn CHR '']''])"
| neg_cls: "character_ranges b \<Longrightarrow> glob_term (rn CHR ''['' # rn CHR ''^'' # b @ [rn CHR '']''])"
| lit: "c \<noteq> rn CHR ''*'' \<Longrightarrow> c \<noteq> rn CHR ''?'' \<Longrightarrow> c \<noteq> rn CHR 0x5C \<Longrightarrow> c \<noteq> rn CHR ''[''
        \<Longrightarrow> glob_term [c]"
| esc: "glob_term [rn CHR 0x5C, c]"

inductive glob_pattern :: "gostring \<Rightarrow> bool" where
  none: "glob_pattern []"
| snoc: "glob_pattern p \<Longrightarrow> glob_term t \<Longrightarrow> glob_pattern (p @ t)"

section \<open>Properties of the validator\<close>

lemmas Check_defs = Check_def runes_def checker0_def body_def caseRegular_def
  caseClassMiddle_def finish_def give_def
lemmas Clean_defs = Clean_def runes_def cleaner0_def cleanBody_def cleanRegular_def

lemma body_column: "body c r = Inr c1 \<Longrightarrow> column c1 = column c"
  by (auto simp: body_def caseRegular_def caseClassMiddle_def split: State.splits if_splits)

lemma loop_column: "loop c glob = Inr c1 \<Longrightarrow> column c1 = column c + int (length glob)"
proof (induction glob arbitrary: c)
  case Nil
  then show ?case by simp
next
  case (Cons r rs)
  then obtain c2 where b: "body (c\<lparr>column := column c + 1\<rparr>) r = Inr c2"
    and l: "loop c2 rs = Inr c1"
    by (auto simp: Let_def split: sum.splits)
  from body_column[OF b] Cons.IH[OF l] show ?case by simp
qed

lemma loop_error:
  "loop c glob = Inl e \<Longrightarrow>
   \<exists>i c1. i < length glob \<and> loop c (take i glob) = Inr c1 \<and>
     body (c1\<lparr>column := column c1 + 1\<rparr>) (glob ! i) = Inl (Err e) \<and>
     Column e = column c + 1 + int i \<and> Line e = - 1 \<and> File e = []"
proof (induction glob arbitrary: c)
  case Nil
  then show ?case by simp
next
  case (Cons r rs)
  let ?c1 = "c\<lparr>column := column c + 1\<rparr>"
  show ?case
  proof (cases "body ?c1 r")
    case (Inl k)
    with Cons.prems have e: "e = give ?c1 k" by (simp add: Let_def)
    have "0 < length (r # rs) \<and> loop c (take 0 (r # rs)) = Inr c \<and>
      body (c\<lparr>column := column c + 1\<rparr>) ((r # rs) ! 0) = Inl (Err e) \<and>
      Column e = column c + 1 + int 0 \<and> Line e = - 1 \<and> File e = []"
      using Inl e by (simp add: give_def)
    then show ?thesis by blast
  next
    case (Inr c2)
    with Cons.prems have l: "loop c2 rs = Inl e" by (simp add: Let_def)
    from Cons.IH[OF l] obtain i c1 where i: "i < length rs"
      and p: "loop c2 (take i rs) = Inr c1"
      and b: "body (c1\<lparr>column := column c1 + 1\<rparr>) (rs ! i) = Inl (Err e)"
      and k: "Column e = column c2 + 1 + int i" and o: "Line e = - 1" "File e = []"
      by blast
    have "Suc i < length (r # rs) \<and> loop c (take (Suc i) (r # rs)) = Inr c1 \<and>
      body (c1\<lparr>column := column c1 + 1\<rparr>) ((r # rs) ! Suc i) = Inl (Err e) \<and>
      Column e = column c + 1 + int (Suc i) \<and> Line e = - 1 \<and> File e = []"
      using i p b k o Inr body_column[OF Inr] by (simp add: Let_def)
    then show ?thesis by blast
  qed
qed

lemma loop_append:
  "loop c (xs @ ys) = (case loop c xs of Inl e \<Rightarrow> Inl e | Inr c1 \<Rightarrow> loop c1 ys)"
  by (induction xs arbitrary: c) (auto simp: Let_def split: sum.splits)

lemma body_kind:
  "body c r = Inl k \<Longrightarrow> k \<in> {ErrUnexpectedRune, ErrNegativeRange, ErrDualStar, ErrEmptyClass}"
  by (auto simp: body_def split: State.splits if_splits)

lemma finish_kind:
  "finish c = Some e \<Longrightarrow>
   Err e \<in> {ErrEmptyGlob, ErrIncompleteClass, ErrTrailingEscape, ErrTrailingWhitespace} \<and>
   Column e = column c \<and> Line e = - 1 \<and> File e = []"
  by (auto simp: finish_def give_def split: State.splits)

text \<open>
  C7, as the code has it. An error raised inside the loop (\<open>ErrUnexpectedRune\<close>,
  \<open>ErrNegativeRange\<close>, \<open>ErrDualStar\<close>, \<open>ErrEmptyClass\<close>) carries as \<open>Column\<close> the 0-based
  index, counted in runes, of the rune that triggered it: the runes before that index are
  scanned without error, and the loop body fails on the rune at that index. An error raised
  after the loop (\<open>ErrEmptyGlob\<close>, \<open>ErrIncompleteClass\<close>, \<open>ErrTrailingEscape\<close>,
  \<open>ErrTrailingWhitespace\<close>) carries the index of the last rune of the input, that is the
  length minus one, which is \<open>-1\<close> on the empty input.
\<close>

theorem Check_column:
  assumes "Check glob = Some e"
  shows "(Err e \<in> {ErrUnexpectedRune, ErrNegativeRange, ErrDualStar, ErrEmptyClass} \<and>
          0 \<le> Column e \<and> nat (Column e) < length glob \<and>
          (\<exists>c. loop checker0 (take (nat (Column e)) glob) = Inr c \<and>
               body (c\<lparr>column := Column e\<rparr>) (glob ! nat (Column e)) = Inl (Err e)))
       \<or> (Err e \<in> {ErrEmptyGlob, ErrIncompleteClass, ErrTrailingEscape, ErrTrailingWhitespace} \<and>
          (\<exists>c. loop checker0 glob = Inr c) \<and>
          Column e = int (length glob) - 1)"
proof (cases "loop checker0 glob")
  case (Inl e')
  with assms have e: "e' = e" by (simp add: Check_def)
  from loop_error[OF Inl[unfolded e]] obtain i c1 where i: "i < length glob"
    and p: "loop checker0 (take i glob) = Inr c1"
    and b: "body (c1\<lparr>column := column c1 + 1\<rparr>) (glob ! i) = Inl (Err e)"
    and k: "Column e = column checker0 + 1 + int i"
    by blast
  have col: "Column e = int i" using k by (simp add: checker0_def)
  have "column c1 = int i - 1" using loop_column[OF p] i by (simp add: checker0_def)
  with b col have b': "body (c1\<lparr>column := Column e\<rparr>) (glob ! nat (Column e)) = Inl (Err e)"
    by simp
  from body_kind[OF b] p b' col i show ?thesis by auto
next
  case (Inr c)
  with assms have f: "finish c = Some e" by (simp add: Check_def)
  from finish_kind[OF f] loop_column[OF Inr] Inr show ?thesis
    by (auto simp: checker0_def)
qed

text \<open>
  The theorem at the pattern of the five runes \<^verbatim>\<open>[\<close>, U+03B6, \<^verbatim>\<open>-\<close>, \<^verbatim>\<open>a\<close>, \<^verbatim>\<open>]\<close>: the
  error is at the rune \<^verbatim>\<open>a\<close>, whose index is 3 and whose byte offset is 4.
\<close>

theorem Check_column_witness:
  "Check [rn CHR ''['', 950, rn CHR ''-'', rn CHR ''a'', rn CHR '']''] =
     Some \<lparr>Err = ErrNegativeRange, Column = 3, Line = - 1, File = []\<rparr> \<and>
   (\<exists>c. loop checker0 (take 3 [rn CHR ''['', 950, rn CHR ''-'', rn CHR ''a'', rn CHR '']'']) = Inr c \<and>
        body (c\<lparr>column := 3\<rparr>) ([rn CHR ''['', 950, rn CHR ''-'', rn CHR ''a'', rn CHR '']''] ! 3) =
          Inl ErrNegativeRange) \<and>
   byte_index [rn CHR ''['', 950, rn CHR ''-'', rn CHR ''a'', rn CHR '']''] 3 = 4"
proof -
  have h: "Check [rn CHR ''['', 950, rn CHR ''-'', rn CHR ''a'', rn CHR '']''] =
      Some \<lparr>Err = ErrNegativeRange, Column = 3, Line = - 1, File = []\<rparr>"
    by (simp add: Check_defs)
  have b: "byte_index [rn CHR ''['', 950, rn CHR ''-'', rn CHR ''a'', rn CHR '']''] 3 = 4"
    by (simp add: byte_index_def utf8_width_def)
  from Check_column[OF h] show ?thesis using h b by simp
qed

text \<open>
  C7 as the claim states it asks for the index one past the last rune at an end-of-input
  failure. On \<^verbatim>\<open>[\<close>, of length 1, the reported column is 0.
\<close>

theorem Check_column_eoi_counterexample:
  "Check (runes ''['') = Some \<lparr>Err = ErrIncompleteClass, Column = 0, Line = - 1, File = []\<rparr> \<and>
   (0::int) \<noteq> int (length (runes ''[''))"
  by (simp add: Check_defs)

text \<open>
  C8. A scan that ends in state \<open>DualStar\<close> succeeds, and any rune after it fails with
  \<open>ErrDualStar\<close> at that rune's index: \<^verbatim>\<open>**\<close> passes, while \<^verbatim>\<open>**x\<close> and \<^verbatim>\<open>**/\<close> fail
  with \<open>ErrDualStar\<close>.
\<close>

theorem Check_DualStar_at_end:
  "Check (runes ''**'') = None \<and>
   Check (runes ''**x'') = Some \<lparr>Err = ErrDualStar, Column = 2, Line = - 1, File = []\<rparr> \<and>
   Check (runes ''**/'') = Some \<lparr>Err = ErrDualStar, Column = 2, Line = - 1, File = []\<rparr> \<and>
   (\<forall>glob c. loop checker0 glob = Inr c \<and> state c = DualStar \<longrightarrow>
      Check glob = None \<and>
      (\<forall>r. Check (glob @ [r]) =
            Some \<lparr>Err = ErrDualStar, Column = int (length glob), Line = - 1, File = []\<rparr>))"
proof -
  have g: "Check glob = None \<and>
      (\<forall>r. Check (glob @ [r]) =
            Some \<lparr>Err = ErrDualStar, Column = int (length glob), Line = - 1, File = []\<rparr>)"
    if l: "loop checker0 glob = Inr c" and s: "state c = DualStar" for glob c
  proof -
    have "column c = int (length glob) - 1"
      using loop_column[OF l] by (simp add: checker0_def)
    then show ?thesis
      using l s by (simp add: Check_def finish_def loop_append body_def give_def)
  qed
  have "Check (runes ''**'') = None"
    by (simp add: Check_defs)
  moreover have "Check (runes ''**x'') =
      Some \<lparr>Err = ErrDualStar, Column = 2, Line = - 1, File = []\<rparr>"
    by (simp add: Check_defs)
  moreover have "Check (runes ''**/'') =
      Some \<lparr>Err = ErrDualStar, Column = 2, Line = - 1, File = []\<rparr>"
    by (simp add: Check_defs)
  ultimately show ?thesis using g by blast
qed

text \<open>The theorem at the pattern \<^verbatim>\<open>a**\<close>, and at \<^verbatim>\<open>a**b\<close>.\<close>

theorem Check_DualStar_at_end_witness:
  "Check (runes ''a**'') = None \<and>
   Check (runes ''a**'' @ [rn CHR ''b'']) =
     Some \<lparr>Err = ErrDualStar, Column = 3, Line = - 1, File = []\<rparr>"
proof -
  have h: "loop checker0 (runes ''a**'') =
      Inr \<lparr>column = 2, last_r = 0, state = DualStar, next_s = Initial\<rparr> \<and>
    state \<lparr>column = 2, last_r = 0, state = DualStar, next_s = Initial\<rparr> = DualStar"
    by (simp add: Check_defs)
  have n: "int (length (runes ''a**'')) = 3" by (simp add: runes_def)
  from Check_DualStar_at_end h show ?thesis unfolding n[symmetric] by blast
qed

section \<open>Properties of the normalizer\<close>

text \<open>
  C5. In state \<open>CWhitespace\<close> a rune that is not whitespace moves \<open>sp\<close> to the end of
  \<open>buf\<close> and empties \<open>sp\<close>, but the rune itself is not written: \<^verbatim>\<open>Clean("a b")\<close> is
  \<^verbatim>\<open>"a "\<close>, not \<^verbatim>\<open>"a b"\<close>.
\<close>

theorem Clean_Whitespace_drops_rune:
  "cleanBody \<lparr>cstate = CWhitespace, buf = b, sp = s\<rparr> (rn CHR ''b'') =
     Inr \<lparr>cstate = CRegular, buf = b @ s, sp = []\<rparr> \<and>
   Clean (runes ''a b'') = runes ''a '' \<and>
   Clean (runes ''a b'') \<noteq> runes ''a b''"
  by (simp add: Clean_defs)

lemma cleanBody_cases:
  "cstate c \<noteq> CInitial \<Longrightarrow>
   \<exists>st x p. cleanBody c r = Inr \<lparr>cstate = st, buf = buf c @ x, sp = p\<rparr> \<and> st \<noteq> CInitial \<and>
     (\<forall>b. cleanBody (c\<lparr>buf := b\<rparr>) r = Inr \<lparr>cstate = st, buf = b @ x, sp = p\<rparr>)"
  by (cases c; cases "cstate c") (auto simp: cleanBody_def cleanRegular_def)

lemma cleanLoop_buf:
  "cstate c \<noteq> CInitial \<Longrightarrow> cleanLoop c s = buf c @ cleanLoop (c\<lparr>buf := []\<rparr>) s"
proof (induction s arbitrary: c)
  case Nil
  then show ?case by simp
next
  case (Cons r rs)
  from cleanBody_cases[OF Cons.prems, of r] obtain st x p where
    1: "cleanBody c r = Inr \<lparr>cstate = st, buf = buf c @ x, sp = p\<rparr>" and st: "st \<noteq> CInitial"
    and 2: "\<And>b. cleanBody (c\<lparr>buf := b\<rparr>) r = Inr \<lparr>cstate = st, buf = b @ x, sp = p\<rparr>"
    by blast
  have a: "cleanLoop \<lparr>cstate = st, buf = buf c @ x, sp = p\<rparr> rs =
      (buf c @ x) @ cleanLoop \<lparr>cstate = st, buf = [], sp = p\<rparr> rs"
    using Cons.IH[of "\<lparr>cstate = st, buf = buf c @ x, sp = p\<rparr>"] st by simp
  have b: "cleanLoop \<lparr>cstate = st, buf = x, sp = p\<rparr> rs =
      x @ cleanLoop \<lparr>cstate = st, buf = [], sp = p\<rparr> rs"
    using Cons.IH[of "\<lparr>cstate = st, buf = x, sp = p\<rparr>"] st by simp
  show ?case using 1 2[of "[]"] a b by simp
qed

lemma flushes_cstate: "cstate c = cstate c' \<Longrightarrow> flushes c s = flushes c' s"
proof (induction s arbitrary: c c')
  case Nil
  then show ?case by simp
next
  case (Cons r rs)
  have "(\<exists>x. cleanBody c r = Inl x \<and> cleanBody c' r = Inl x) \<or>
        (\<exists>c1 c1'. cleanBody c r = Inr c1 \<and> cleanBody c' r = Inr c1' \<and> cstate c1 = cstate c1')"
    using Cons.prems by (cases "cstate c") (auto simp: cleanBody_def cleanRegular_def)
  then show ?case
  proof
    assume "\<exists>x. cleanBody c r = Inl x \<and> cleanBody c' r = Inl x"
    then show ?thesis by auto
  next
    assume "\<exists>c1 c1'. cleanBody c r = Inr c1 \<and> cleanBody c' r = Inr c1' \<and> cstate c1 = cstate c1'"
    then obtain c1 c1' where "cleanBody c r = Inr c1" "cleanBody c' r = Inr c1'"
      "cstate c1 = cstate c1'" by blast
    then show ?thesis using Cons.IH[of c1 c1'] Cons.prems by simp
  qed
qed

lemma no_flush_Whitespace:
  "cstate c = CWhitespace \<Longrightarrow> \<not> flushes c s \<Longrightarrow> cleanLoop c s = buf c"
proof (induction s arbitrary: c)
  case Nil
  then show ?case by simp
next
  case (Cons r rs)
  then have ws: "r = rn CHR '' '' \<or> r = rn CHR 0x09 \<or> r = rn CHR 0x0A"
    by (auto simp: cleanBody_def split: if_splits)
  with Cons.prems have b: "cleanBody c r = Inr (c\<lparr>sp := sp c @ [r]\<rparr>)"
    by (auto simp: cleanBody_def)
  with Cons.prems have "\<not> flushes (c\<lparr>sp := sp c @ [r]\<rparr>) rs" by simp
  from Cons.IH[OF _ this] Cons.prems(1) b show ?case by simp
qed

lemma no_flush_fixed:
  "st \<noteq> CInitial \<Longrightarrow> \<not> flushes \<lparr>cstate = st, buf = [], sp = p\<rparr> s \<Longrightarrow>
   cleanLoop regular0 (cleanLoop \<lparr>cstate = st, buf = [], sp = p\<rparr> s) =
   cleanLoop \<lparr>cstate = st, buf = [], sp = p\<rparr> s"
proof (induction s arbitrary: st p)
  case Nil
  then show ?case by simp
next
  case (Cons r rs)
  let ?ws = "r = rn CHR '' '' \<or> r = rn CHR 0x09 \<or> r = rn CHR 0x0A"
  show ?case
  proof (cases st)
    case CInitial
    with Cons.prems show ?thesis by simp
  next
    case CRegular
    show ?thesis
    proof (cases ?ws)
      case True
      then have b: "cleanBody \<lparr>cstate = st, buf = [], sp = p\<rparr> r =
          Inr \<lparr>cstate = CWhitespace, buf = [], sp = p @ [r]\<rparr>"
        using CRegular by (auto simp: cleanBody_def cleanRegular_def)
      with Cons.prems have "\<not> flushes \<lparr>cstate = CWhitespace, buf = [], sp = p @ [r]\<rparr> rs"
        by simp
      from Cons.IH[OF _ this] b show ?thesis by simp
    next
      case False
      show ?thesis
      proof (cases "r = rn CHR 0x5C")
        case True
        then have b: "cleanBody \<lparr>cstate = st, buf = [], sp = p\<rparr> r =
            Inr \<lparr>cstate = CEscape, buf = [], sp = p\<rparr>"
          using CRegular by (auto simp: cleanBody_def cleanRegular_def)
        with Cons.prems have "\<not> flushes \<lparr>cstate = CEscape, buf = [], sp = p\<rparr> rs"
          by simp
        from Cons.IH[OF _ this] b show ?thesis by simp
      next
        case nb: False
        let ?X = "cleanLoop \<lparr>cstate = CRegular, buf = [], sp = p\<rparr> rs"
        have b: "cleanBody \<lparr>cstate = st, buf = [], sp = p\<rparr> r =
            Inr \<lparr>cstate = CRegular, buf = [r], sp = p\<rparr>"
          using CRegular False nb by (simp add: cleanBody_def cleanRegular_def)
        with Cons.prems have "\<not> flushes \<lparr>cstate = CRegular, buf = [r], sp = p\<rparr> rs"
          by simp
        then have nf: "\<not> flushes \<lparr>cstate = CRegular, buf = [], sp = p\<rparr> rs"
          using flushes_cstate[of "\<lparr>cstate = CRegular, buf = [r], sp = p\<rparr>"
              "\<lparr>cstate = CRegular, buf = [], sp = p\<rparr>" rs] by simp
        have l: "cleanLoop \<lparr>cstate = st, buf = [], sp = p\<rparr> (r # rs) = r # ?X"
          using b cleanLoop_buf[of "\<lparr>cstate = CRegular, buf = [r], sp = p\<rparr>" rs] by simp
        have "cleanLoop regular0 (r # ?X) = cleanLoop \<lparr>cstate = CRegular, buf = [r], sp = []\<rparr> ?X"
          using False nb by (simp add: cleanBody_def cleanRegular_def)
        also have "\<dots> = r # cleanLoop regular0 ?X"
          using cleanLoop_buf[of "\<lparr>cstate = CRegular, buf = [r], sp = []\<rparr>" ?X] by simp
        also have "\<dots> = r # ?X"
          using Cons.IH[OF _ nf] by simp
        finally show ?thesis using l by simp
      qed
    qed
  next
    case CEscape
    let ?X = "cleanLoop \<lparr>cstate = CRegular, buf = [], sp = p\<rparr> rs"
    have b: "cleanBody \<lparr>cstate = st, buf = [], sp = p\<rparr> r =
        Inr \<lparr>cstate = CRegular, buf = [rn CHR 0x5C, r], sp = p\<rparr>"
      using CEscape by (simp add: cleanBody_def)
    with Cons.prems have "\<not> flushes \<lparr>cstate = CRegular, buf = [rn CHR 0x5C, r], sp = p\<rparr> rs"
      by simp
    then have nf: "\<not> flushes \<lparr>cstate = CRegular, buf = [], sp = p\<rparr> rs"
      using flushes_cstate[of "\<lparr>cstate = CRegular, buf = [rn CHR 0x5C, r], sp = p\<rparr>"
          "\<lparr>cstate = CRegular, buf = [], sp = p\<rparr>" rs] by simp
    have l: "cleanLoop \<lparr>cstate = st, buf = [], sp = p\<rparr> (r # rs) = rn CHR 0x5C # r # ?X"
      using b cleanLoop_buf[of "\<lparr>cstate = CRegular, buf = [rn CHR 0x5C, r], sp = p\<rparr>" rs] by simp
    have "cleanLoop regular0 (rn CHR 0x5C # r # ?X) =
        cleanLoop \<lparr>cstate = CRegular, buf = [rn CHR 0x5C, r], sp = []\<rparr> ?X"
      by (simp add: cleanBody_def cleanRegular_def)
    also have "\<dots> = rn CHR 0x5C # r # cleanLoop regular0 ?X"
      using cleanLoop_buf[of "\<lparr>cstate = CRegular, buf = [rn CHR 0x5C, r], sp = []\<rparr>" ?X] by simp
    also have "\<dots> = rn CHR 0x5C # r # ?X"
      using Cons.IH[OF _ nf] by simp
    finally show ?thesis using l by simp
  next
    case CWhitespace
    from no_flush_Whitespace[OF _ Cons.prems(2)] CWhitespace show ?thesis by simp
  qed
qed


lemma no_flush_head:
  assumes "r \<noteq> rn CHR ''#''" and "\<not> flushes regular0 (r # rs)"
  shows "cleanLoop regular0 (r # rs) = [] \<or> hd (cleanLoop regular0 (r # rs)) \<noteq> rn CHR ''#''"
proof -
  let ?ws = "r = rn CHR '' '' \<or> r = rn CHR 0x09 \<or> r = rn CHR 0x0A"
  show ?thesis
  proof (cases ?ws)
    case True
    then have b: "cleanBody regular0 r = Inr \<lparr>cstate = CWhitespace, buf = [], sp = [r]\<rparr>"
      by (auto simp: cleanBody_def cleanRegular_def)
    with assms(2) have "\<not> flushes \<lparr>cstate = CWhitespace, buf = [], sp = [r]\<rparr> rs" by simp
    from no_flush_Whitespace[OF _ this] b show ?thesis by simp
  next
    case False
    show ?thesis
    proof (cases "r = rn CHR 0x5C")
      case True
      then have b: "cleanBody regular0 r = Inr \<lparr>cstate = CEscape, buf = [], sp = []\<rparr>"
        by (auto simp: cleanBody_def cleanRegular_def)
      show ?thesis
      proof (cases rs)
        case Nil
        with b show ?thesis by simp
      next
        case (Cons c cs)
        have "cleanLoop regular0 (r # rs) =
            cleanLoop \<lparr>cstate = CRegular, buf = [rn CHR 0x5C, c], sp = []\<rparr> cs"
          using b Cons by (simp add: cleanBody_def)
        also have "\<dots> = rn CHR 0x5C # c # cleanLoop regular0 cs"
          using cleanLoop_buf[of "\<lparr>cstate = CRegular, buf = [rn CHR 0x5C, c], sp = []\<rparr>" cs]
          by simp
        finally show ?thesis by simp
      qed
    next
      case nb: False
      have "cleanLoop regular0 (r # rs) = cleanLoop \<lparr>cstate = CRegular, buf = [r], sp = []\<rparr> rs"
        using False nb by (simp add: cleanBody_def cleanRegular_def)
      also have "\<dots> = r # cleanLoop regular0 rs"
        using cleanLoop_buf[of "\<lparr>cstate = CRegular, buf = [r], sp = []\<rparr>" rs] by simp
      finally show ?thesis using assms(1) by simp
    qed
  qed
qed

lemma Clean_regular0:
  "s = [] \<or> hd s \<noteq> rn CHR ''#'' \<Longrightarrow>
   Clean s = cleanLoop regular0 s \<and> flushes cleaner0 s = flushes regular0 s"
  by (cases s) (auto simp: Clean_def cleaner0_def cleanBody_def)

text \<open>
  Where the scan never takes the default branch of \<^verbatim>\<open>case Whitespace\<close>, the branch that
  drops the rune, a second \<^verbatim>\<open>Clean\<close> changes nothing.
\<close>

lemma Clean_idempotent_unless_flush:
  assumes "\<not> flushes cleaner0 s"
  shows "Clean (Clean s) = Clean s"
proof (cases "s = [] \<or> hd s \<noteq> rn CHR ''#''")
  case False
  then obtain rs where "s = rn CHR ''#'' # rs" by (cases s) auto
  then have "Clean s = []" by (simp add: Clean_def cleaner0_def cleanBody_def)
  then show ?thesis by (simp add: Clean_def cleaner0_def)
next
  case True
  let ?t = "cleanLoop regular0 s"
  from Clean_regular0[OF True] assms have c: "Clean s = ?t" and nf: "\<not> flushes regular0 s"
    by simp_all
  have fp: "cleanLoop regular0 ?t = ?t"
    using no_flush_fixed[of CRegular "[]" s] nf by simp
  have "?t = [] \<or> hd ?t \<noteq> rn CHR ''#''"
  proof (cases s)
    case Nil
    then show ?thesis by simp
  next
    case (Cons r rs)
    with True nf no_flush_head[of r rs] show ?thesis by simp
  qed
  from Clean_regular0[OF this] fp c show ?thesis by simp
qed

text \<open>The lemma at \<^verbatim>\<open>"ab  "\<close>, which \<^verbatim>\<open>Clean\<close> turns into \<^verbatim>\<open>"ab"\<close>.\<close>

lemma Clean_idempotent_unless_flush_example:
  "\<not> flushes cleaner0 (runes ''ab  '') \<and> Clean (runes ''ab  '') = runes ''ab'' \<and>
   Clean (Clean (runes ''ab  '')) = Clean (runes ''ab  '')"
proof -
  have h: "\<not> flushes cleaner0 (runes ''ab  '')"
    by (simp add: Clean_defs)
  have v: "Clean (runes ''ab  '') = runes ''ab''"
    by (simp add: Clean_defs)
  from Clean_idempotent_unless_flush[OF h] h v show ?thesis by blast
qed

text \<open>
  C6. \<^verbatim>\<open>Clean\<close> is not idempotent at \<^verbatim>\<open>"a b"\<close>: the rune \<^verbatim>\<open>b\<close> is dropped after the
  whitespace is written, so \<^verbatim>\<open>Clean("a b")\<close> is \<^verbatim>\<open>"a "\<close>, and cleaning that again removes
  the whitespace, now trailing, and gives \<^verbatim>\<open>"a"\<close>.
\<close>

theorem Clean_not_idempotent:
  "Clean (runes ''a b'') = runes ''a '' \<and>
   Clean (Clean (runes ''a b'')) = runes ''a'' \<and>
   Clean (Clean (runes ''a b'')) \<noteq> Clean (runes ''a b'')"
  by (simp add: Clean_defs)

lemma cleanLoop_length:
  "cstate c \<noteq> CInitial \<Longrightarrow>
   length (cleanLoop c u) \<le>
     length (buf c) + length (sp c) + (if cstate c = CEscape then 1 else 0) + length u"
proof (induction u arbitrary: c)
  case Nil
  then show ?case by simp
next
  case (Cons r rs)
  from Cons.prems have "\<exists>c1. cleanBody c r = Inr c1 \<and> cstate c1 \<noteq> CInitial \<and>
      length (buf c1) + length (sp c1) + (if cstate c1 = CEscape then 1 else 0) \<le>
        length (buf c) + length (sp c) + (if cstate c = CEscape then 1 else 0) + 1"
    by (cases "cstate c"; cases "is_ws r") (auto simp: cleanBody_def cleanRegular_def)
  then obtain c1 where b: "cleanBody c r = Inr c1" and s: "cstate c1 \<noteq> CInitial"
    and m: "length (buf c1) + length (sp c1) + (if cstate c1 = CEscape then 1 else 0) \<le>
        length (buf c) + length (sp c) + (if cstate c = CEscape then 1 else 0) + 1"
    by blast
  from Cons.IH[OF s] b m show ?case by simp
qed

lemma cleanLoop_length_Whitespace:
  "cstate c = CWhitespace \<Longrightarrow> sp c \<noteq> [] \<Longrightarrow>
   length (cleanLoop c u) < length (buf c) + length (sp c) + length u"
proof (induction u arbitrary: c)
  case Nil
  then show ?case by simp
next
  case (Cons r rs)
  show ?case
  proof (cases "is_ws r")
    case True
    with Cons.prems have b: "cleanBody c r = Inr (c\<lparr>sp := sp c @ [r]\<rparr>)"
      by (auto simp: cleanBody_def)
    from Cons.IH[of "c\<lparr>sp := sp c @ [r]\<rparr>"] Cons.prems b show ?thesis by simp
  next
    case False
    with Cons.prems have b: "cleanBody c r =
        Inr (c\<lparr>cstate := CRegular, buf := buf c @ sp c, sp := []\<rparr>)"
      by (auto simp: cleanBody_def)
    from cleanLoop_length[of "c\<lparr>cstate := CRegular, buf := buf c @ sp c, sp := []\<rparr>" rs] b
    show ?thesis by simp
  qed
qed

lemma flush_not_fixed:
  "st \<noteq> CInitial \<Longrightarrow> flushes \<lparr>cstate = st, buf = [], sp = p\<rparr> s \<Longrightarrow>
   (if st = CWhitespace then p \<noteq> [] \<and> is_ws (hd p) else p = []) \<Longrightarrow>
   cleanLoop regular0 (cleanLoop \<lparr>cstate = st, buf = [], sp = p\<rparr> s) \<noteq>
   cleanLoop \<lparr>cstate = st, buf = [], sp = p\<rparr> s"
proof (induction s arbitrary: st p)
  case Nil
  then show ?case by simp
next
  case (Cons r rs)
  show ?case
  proof (cases st)
    case CInitial
    with Cons.prems show ?thesis by simp
  next
    case CRegular
    with Cons.prems have p: "p = []" by simp
    show ?thesis
    proof (cases "is_ws r")
      case True
      then have b: "cleanBody \<lparr>cstate = st, buf = [], sp = p\<rparr> r =
          Inr \<lparr>cstate = CWhitespace, buf = [], sp = [r]\<rparr>"
        using CRegular p by (auto simp: cleanBody_def cleanRegular_def)
      with Cons.prems CRegular have f: "flushes \<lparr>cstate = CWhitespace, buf = [], sp = [r]\<rparr> rs"
        by simp
      from Cons.IH[OF _ f] True b show ?thesis by simp
    next
      case False
      show ?thesis
      proof (cases "r = rn CHR 0x5C")
        case True
        then have b: "cleanBody \<lparr>cstate = st, buf = [], sp = p\<rparr> r =
            Inr \<lparr>cstate = CEscape, buf = [], sp = []\<rparr>"
          using CRegular p by (auto simp: cleanBody_def cleanRegular_def)
        with Cons.prems CRegular have f: "flushes \<lparr>cstate = CEscape, buf = [], sp = []\<rparr> rs"
          by simp
        from Cons.IH[OF _ f] b show ?thesis by simp
      next
        case nb: False
        let ?X = "cleanLoop regular0 rs"
        have b: "cleanBody \<lparr>cstate = st, buf = [], sp = p\<rparr> r =
            Inr \<lparr>cstate = CRegular, buf = [r], sp = []\<rparr>"
          using CRegular False nb p by (simp add: cleanBody_def cleanRegular_def)
        with Cons.prems CRegular have "flushes \<lparr>cstate = CRegular, buf = [r], sp = []\<rparr> rs"
          by simp
        then have f: "flushes regular0 rs"
          using flushes_cstate[of "\<lparr>cstate = CRegular, buf = [r], sp = []\<rparr>" regular0 rs]
          by simp
        have l: "cleanLoop \<lparr>cstate = st, buf = [], sp = p\<rparr> (r # rs) = r # ?X"
          using b cleanLoop_buf[of "\<lparr>cstate = CRegular, buf = [r], sp = []\<rparr>" rs] by simp
        have "cleanLoop regular0 (r # ?X) = cleanLoop \<lparr>cstate = CRegular, buf = [r], sp = []\<rparr> ?X"
          using False nb by (simp add: cleanBody_def cleanRegular_def)
        also have "\<dots> = r # cleanLoop regular0 ?X"
          using cleanLoop_buf[of "\<lparr>cstate = CRegular, buf = [r], sp = []\<rparr>" ?X] by simp
        finally show ?thesis using l Cons.IH[OF _ f] by simp
      qed
    qed
  next
    case CEscape
    with Cons.prems have p: "p = []" by simp
    let ?X = "cleanLoop regular0 rs"
    have b: "cleanBody \<lparr>cstate = st, buf = [], sp = p\<rparr> r =
        Inr \<lparr>cstate = CRegular, buf = [rn CHR 0x5C, r], sp = []\<rparr>"
      using CEscape p by (simp add: cleanBody_def)
    with Cons.prems CEscape have "flushes \<lparr>cstate = CRegular, buf = [rn CHR 0x5C, r], sp = []\<rparr> rs"
      by simp
    then have f: "flushes regular0 rs"
      using flushes_cstate[of "\<lparr>cstate = CRegular, buf = [rn CHR 0x5C, r], sp = []\<rparr>" regular0 rs]
      by simp
    have l: "cleanLoop \<lparr>cstate = st, buf = [], sp = p\<rparr> (r # rs) = rn CHR 0x5C # r # ?X"
      using b cleanLoop_buf[of "\<lparr>cstate = CRegular, buf = [rn CHR 0x5C, r], sp = []\<rparr>" rs] by simp
    have "cleanLoop regular0 (rn CHR 0x5C # r # ?X) =
        cleanLoop \<lparr>cstate = CRegular, buf = [rn CHR 0x5C, r], sp = []\<rparr> ?X"
      by (simp add: cleanBody_def cleanRegular_def)
    also have "\<dots> = rn CHR 0x5C # r # cleanLoop regular0 ?X"
      using cleanLoop_buf[of "\<lparr>cstate = CRegular, buf = [rn CHR 0x5C, r], sp = []\<rparr>" ?X] by simp
    finally show ?thesis using l Cons.IH[OF _ f] by simp
  next
    case CWhitespace
    with Cons.prems obtain w p' where p: "p = w # p'" and w: "is_ws w"
      by (cases p) auto
    show ?thesis
    proof (cases "is_ws r")
      case True
      then have b: "cleanBody \<lparr>cstate = st, buf = [], sp = p\<rparr> r =
          Inr \<lparr>cstate = CWhitespace, buf = [], sp = p @ [r]\<rparr>"
        using CWhitespace by (auto simp: cleanBody_def)
      with Cons.prems CWhitespace True
      have f: "flushes \<lparr>cstate = CWhitespace, buf = [], sp = p @ [r]\<rparr> rs"
        by auto
      from Cons.IH[OF _ f] p w b show ?thesis by simp
    next
      case False
      let ?Y = "cleanLoop regular0 rs"
      have b: "cleanBody \<lparr>cstate = st, buf = [], sp = p\<rparr> r =
          Inr \<lparr>cstate = CRegular, buf = p, sp = []\<rparr>"
        using CWhitespace False by (auto simp: cleanBody_def)
      have l: "cleanLoop \<lparr>cstate = st, buf = [], sp = p\<rparr> (r # rs) = p @ ?Y"
        using b cleanLoop_buf[of "\<lparr>cstate = CRegular, buf = p, sp = []\<rparr>" rs] by simp
      have "cleanLoop regular0 (p @ ?Y) =
          cleanLoop \<lparr>cstate = CWhitespace, buf = [], sp = [w]\<rparr> (p' @ ?Y)"
        using p w by (auto simp: cleanBody_def cleanRegular_def)
      moreover have "length (cleanLoop \<lparr>cstate = CWhitespace, buf = [], sp = [w]\<rparr> (p' @ ?Y)) <
          length (p @ ?Y)"
        using cleanLoop_length_Whitespace[of "\<lparr>cstate = CWhitespace, buf = [], sp = [w]\<rparr>" "p' @ ?Y"]
          p by simp
      ultimately show ?thesis using l by auto
    qed
  qed
qed

text \<open>
  On every string whose scan does take the default branch of \<^verbatim>\<open>case Whitespace\<close>, a
  second \<^verbatim>\<open>Clean\<close> changes the result of the first: idempotence fails exactly where the
  rune is dropped.
\<close>

lemma Clean_flush_not_idempotent:
  assumes "flushes cleaner0 s"
  shows "Clean (Clean s) \<noteq> Clean s"
proof -
  from assms obtain r rs where s: "s = r # rs" by (cases s) auto
  with assms have r: "r \<noteq> rn CHR ''#''"
    by (auto simp: cleaner0_def cleanBody_def)
  let ?t = "cleanLoop regular0 s"
  from Clean_regular0[of s] s r assms have c: "Clean s = ?t" and f: "flushes regular0 s"
    by simp_all
  have n: "cleanLoop regular0 ?t \<noteq> ?t"
    using flush_not_fixed[of CRegular "[]" s] f by simp
  then have ne: "?t \<noteq> []" by auto
  show ?thesis
  proof (cases "hd ?t = rn CHR ''#''")
    case True
    with ne obtain ts where "?t = rn CHR ''#'' # ts" by (cases ?t) auto
    then have "Clean ?t = []" by (simp add: Clean_def cleaner0_def cleanBody_def)
    with ne c show ?thesis by simp
  next
    case False
    from Clean_regular0[of ?t] False n c show ?thesis by simp
  qed
qed

section \<open>Properties of the insertions\<close>

lemma add_good: "Check g = None \<Longrightarrow> \<not> containsSep g \<Longrightarrow> add L g = (None, L @ [g])"
  by (simp add: add_def)

lemma add_bad: "Check g \<noteq> None \<or> containsSep g \<Longrightarrow> \<exists>e. add L g = (Some e, L)"
  by (auto simp: add_def split: option.splits)

lemma addAll_takeWhile:
  "snd (addAll L globs) = L @ takeWhile (\<lambda>g. Check g = None \<and> \<not> containsSep g) globs"
proof (induction globs arbitrary: L)
  case Nil
  then show ?case by simp
next
  case (Cons g gs)
  show ?case
  proof (cases "Check g = None \<and> \<not> containsSep g")
    case True
    then show ?thesis using Cons.IH[of "L @ [g]"] by (simp add: add_good)
  next
    case False
    then obtain e where "add L g = (Some e, L)" using add_bad[of g L] by blast
    then show ?thesis using False by auto
  qed
qed

lemma add_bad_error:
  "Check g \<noteq> None \<or> containsSep g \<Longrightarrow>
   add L g = (Some (case Check g of Some pe \<Rightarrow> BadPattern pe | None \<Rightarrow> ErrGlobIsPath), L)"
  by (auto simp: add_def split: option.splits)

lemma addAll_first_error:
  "\<exists>g\<in>set globs. Check g \<noteq> None \<or> containsSep g \<Longrightarrow>
   fst (addAll L globs) =
     Some (case Check (hd (dropWhile (\<lambda>g. Check g = None \<and> \<not> containsSep g) globs)) of
             Some pe \<Rightarrow> BadPattern pe
           | None \<Rightarrow> ErrGlobIsPath)"
proof (induction globs arbitrary: L)
  case Nil
  then show ?case by simp
next
  case (Cons g gs)
  show ?case
  proof (cases "Check g = None \<and> \<not> containsSep g")
    case True
    with Cons.prems have "\<exists>g\<in>set gs. Check g \<noteq> None \<or> containsSep g" by auto
    from Cons.IH[OF this, of "L @ [g]"] True show ?thesis by (simp add: add_good)
  next
    case False
    then have "Check g \<noteq> None \<or> containsSep g" by simp
    from add_bad_error[OF this, of L] False show ?thesis by auto
  qed
qed

text \<open>
  C3, as the code has it. When a batch given to \<^verbatim>\<open>Matcher.Add\<close> or \<^verbatim>\<open>Worker.Add\<close> holds a
  pattern that fails \<^verbatim>\<open>Check\<close> or contains a path separator, the call returns the error
  of the first such pattern (its \<^verbatim>\<open>BadPatternError\<close>, or \<^verbatim>\<open>ErrGlobIsPath\<close>), and
  the list afterwards is the list before followed by the patterns of the batch that come
  before the first such pattern: these stay inserted, the offending pattern and all after it
  are not.
\<close>

theorem Add_keeps_prefix:
  assumes "\<exists>g\<in>set globs. Check g \<noteq> None \<or> containsSep g"
  shows "fst (Matcher_Add m globs) =
           Some (case Check (hd (dropWhile (\<lambda>g. Check g = None \<and> \<not> containsSep g) globs)) of
                   Some pe \<Rightarrow> BadPattern pe
                 | None \<Rightarrow> ErrGlobIsPath) \<and>
         global (snd (Matcher_Add m globs)) =
           global m @ takeWhile (\<lambda>g. Check g = None \<and> \<not> containsSep g) globs \<and>
         fst (Worker_Add w globs) = fst (Matcher_Add m globs) \<and>
         local_w (snd (Worker_Add w globs)) =
           local_w w @ takeWhile (\<lambda>g. Check g = None \<and> \<not> containsSep g) globs"
proof -
  have m: "Matcher_Add m globs =
      (fst (addAll (global m) globs), m\<lparr>global := snd (addAll (global m) globs)\<rparr>)"
    by (simp add: Matcher_Add_def split: prod.splits)
  have w: "Worker_Add w globs =
      (fst (addAll (local_w w) globs), w\<lparr>local_w := snd (addAll (local_w w) globs)\<rparr>)"
    by (simp add: Worker_Add_def split: prod.splits)
  show ?thesis
    using addAll_first_error[OF assms] by (simp add: m w addAll_takeWhile)
qed

text \<open>The theorem at the batch \<^verbatim>\<open>"a", "[", "b"\<close> on an empty list.\<close>

theorem Add_keeps_prefix_witness:
  "fst (Matcher_Add (New []) [runes ''a'', runes ''['', runes ''b'']) =
     Some (BadPattern \<lparr>Err = ErrIncompleteClass, Column = 0, Line = - 1, File = []\<rparr>) \<and>
   global (snd (Matcher_Add (New []) [runes ''a'', runes ''['', runes ''b''])) = [runes ''a'']"
proof -
  have h: "\<exists>g\<in>set [runes ''a'', runes ''['', runes ''b'']. Check g \<noteq> None \<or> containsSep g"
    by (simp add: Check_defs)
  have t: "takeWhile (\<lambda>g. Check g = None \<and> \<not> containsSep g) [runes ''a'', runes ''['', runes ''b'']
      = [runes ''a'']"
    by (simp add: Check_defs containsSep_def)
  have d: "hd (dropWhile (\<lambda>g. Check g = None \<and> \<not> containsSep g)
      [runes ''a'', runes ''['', runes ''b'']) = runes ''[''"
    by (simp add: Check_defs containsSep_def)
  have c: "Check (runes ''['') =
      Some \<lparr>Err = ErrIncompleteClass, Column = 0, Line = - 1, File = []\<rparr>"
    by (simp add: Check_defs)
  from Add_keeps_prefix[OF h, of "New []"] show ?thesis
    unfolding t d c by (simp add: New_def)
qed

text \<open>
  C3 as the claim states it asks for an unchanged list. The batch \<^verbatim>\<open>"a", "["\<close> on the empty
  list returns the error of \<^verbatim>\<open>[\<close> and leaves \<^verbatim>\<open>a\<close> in the list.
\<close>

theorem Add_not_atomic_counterexample:
  "fst (Matcher_Add (New []) [runes ''a'', runes ''['']) =
     Some (BadPattern \<lparr>Err = ErrIncompleteClass, Column = 0, Line = - 1, File = []\<rparr>) \<and>
   global (New []) = [] \<and>
   global (snd (Matcher_Add (New []) [runes ''a'', runes ''[''])) = [runes ''a'']"
  by (simp add: Matcher_Add_def New_def add_def containsSep_def Check_defs)

lemma scanLines_good_prefix:
  assumes "\<forall>t\<in>set pre. Clean t = [] \<or> Check (Clean t) = None"
  shows "scanLines base path line w (pre @ rest) =
         scanLines base path (line + int (length pre))
           (w\<lparr>local_w := local_w w @ map (anchor base) (filter (\<lambda>s. s \<noteq> []) (map Clean pre))\<rparr>)
           rest"
  using assms
proof (induction pre arbitrary: line w)
  case Nil
  then show ?case by simp
next
  case (Cons t ts)
  then have ih: "\<And>line w. scanLines base path line w (ts @ rest) =
      scanLines base path (line + int (length ts))
        (w\<lparr>local_w := local_w w @ map (anchor base) (filter (\<lambda>s. s \<noteq> []) (map Clean ts))\<rparr>) rest"
    by simp
  from Cons.prems have t: "Clean t = [] \<or> Check (Clean t) = None" by simp
  show ?case
  proof (cases "Clean t = []")
    case True
    then show ?thesis by (simp add: ih Let_def ac_simps)
  next
    case False
    with t have "Check (Clean t) = None" by simp
    with False show ?thesis by (simp add: ih Let_def ac_simps)
  qed
qed

text \<open>
  C10. When the lines before a line are all empty after \<^verbatim>\<open>Clean\<close> or pass \<^verbatim>\<open>Check\<close>, and
  that line is not empty after \<^verbatim>\<open>Clean\<close> and fails \<^verbatim>\<open>Check\<close>, then \<^verbatim>\<open>AddFile\<close> returns the
  error of \<^verbatim>\<open>Check\<close> with \<open>Line\<close> set to the 1-based number of that line and \<open>File\<close> set
  to the path given to \<^verbatim>\<open>AddFile\<close>; the lines after it play no part, and the patterns of
  the lines before it are in the local list, each rewritten if it is a path pattern.
\<close>

theorem AddFile_first_bad_line:
  assumes "filepath_Abs os path = Inr a"
    and "openf os a = Inr f"
    and "lines f = pre @ bad # post"
    and "\<forall>t\<in>set pre. Clean t = [] \<or> Check (Clean t) = None"
    and "Clean bad \<noteq> []"
    and "Check (Clean bad) = Some pe"
  shows "Worker_AddFile os w path =
           (Some (BadPattern (pe\<lparr>Line := int (length pre) + 1, File := path\<rparr>)),
            w\<lparr>local_w := local_w w @
                 map (anchor (filepath_Dir a)) (filter (\<lambda>s. s \<noteq> []) (map Clean pre))\<rparr>)"
  using assms(1,2,3,5,6)
  by (simp add: Worker_AddFile_def scanLines_good_prefix[OF assms(4)] Let_def ac_simps)

text \<open>
  The theorem at a file of six lines, of which the fifth is \<^verbatim>\<open>[\<close>: two patterns are
  stored, the path pattern \<^verbatim>\<open>x/y\<close> as \<^verbatim>\<open>/d/x/y\<close>, and the error names line 5.
\<close>

theorem AddFile_first_bad_line_witness:
  "Worker_AddFile
     (fs_lines (runes ''/d/match.conf'')
        [runes ''foo'', runes '''', runes ''# note'', runes ''x/y'', runes ''['', runes ''bar''])
     \<lparr>cwd = runes ''/d'', local_w = [runes ''old''], global_w = []\<rparr>
     (runes ''/d/match.conf'') =
   (Some (BadPattern \<lparr>Err = ErrIncompleteClass, Column = 0, Line = 5,
                      File = runes ''/d/match.conf''\<rparr>),
    \<lparr>cwd = runes ''/d'', local_w = [runes ''old'', runes ''foo'', runes ''/d/x/y''],
     global_w = []\<rparr>)"
proof -
  let ?os = "fs_lines (runes ''/d/match.conf'')
        [runes ''foo'', runes '''', runes ''# note'', runes ''x/y'', runes ''['', runes ''bar'']"
  let ?f = "\<lparr>lines = [runes ''foo'', runes '''', runes ''# note'', runes ''x/y'', runes ''['',
      runes ''bar''], scanErr = None\<rparr>"
  have a: "filepath_Abs ?os (runes ''/d/match.conf'') = Inr (runes ''/d/match.conf'')"
    by (simp add: filepath_Abs_def filepath_IsAbs_def filepath_Clean_def runes_def)
  have o: "openf ?os (runes ''/d/match.conf'') = Inr ?f"
    by (simp add: fs_lines_def)
  have l: "lines ?f = [runes ''foo'', runes '''', runes ''# note'', runes ''x/y''] @ runes ''['' # [runes ''bar'']"
    by simp
  have g: "\<forall>t\<in>set [runes ''foo'', runes '''', runes ''# note'', runes ''x/y''].
      Clean t = [] \<or> Check (Clean t) = None"
    by (simp add: Clean_defs Check_defs)
  have b: "Clean (runes ''['') \<noteq> []"
    by (simp add: Clean_defs)
  have c: "Check (Clean (runes ''['')) =
      Some \<lparr>Err = ErrIncompleteClass, Column = 0, Line = - 1, File = []\<rparr>"
    by (simp add: Clean_defs Check_defs)
  have d: "filepath_Dir (runes ''/d/match.conf'') = runes ''/d''"
    by (simp add: filepath_Dir_def filepath_IsAbs_def filepath_Clean_def runes_def)
  have m: "map (anchor (runes ''/d''))
      (filter (\<lambda>s. s \<noteq> []) (map Clean [runes ''foo'', runes '''', runes ''# note'', runes ''x/y'']))
      = [runes ''foo'', runes ''/d/x/y'']"
    by (simp add: Clean_defs anchor_def containsSep_def filepath_Join_def filepath_IsAbs_def
        filepath_Clean_def)
  from AddFile_first_bad_line[OF a o l g b c, of "\<lparr>cwd = runes ''/d'', local_w = [runes ''old''], global_w = []\<rparr>"]
  show ?thesis unfolding d m by simp
qed

text \<open>
  What is stored has passed \<^verbatim>\<open>Check\<close> before: \<^verbatim>\<open>addAll\<close> stores checked strings as they
  are, and \<^verbatim>\<open>AddFile\<close> stores a checked string as it is or joined to the directory of the
  file.
\<close>

lemma addAll_checked:
  assumes "\<forall>g\<in>set L. Check g = None"
  shows "\<forall>g\<in>set (snd (addAll L globs)). Check g = None"
  using assms by (auto simp: addAll_takeWhile dest: set_takeWhileD)

lemma scanLines_stored:
  "scanLines base path line w ts = (e, w1) \<Longrightarrow>
   \<exists>new. local_w w1 = local_w w @ new \<and>
     (\<forall>g\<in>set new. \<exists>s. Check s = None \<and> g = anchor base s)"
proof (induction ts arbitrary: line w)
  case Nil
  then show ?case by simp
next
  case (Cons t ts)
  show ?case
  proof (cases "Clean t = []")
    case True
    with Cons.prems have "scanLines base path (line + 1) w ts = (e, w1)" by (simp add: Let_def)
    from Cons.IH[OF this] show ?thesis .
  next
    case False
    show ?thesis
    proof (cases "Check (Clean t)")
      case (Some pe)
      with False Cons.prems have "w1 = w" by (simp add: Let_def)
      then show ?thesis by simp
    next
      case None
      with False Cons.prems have
        "scanLines base path (line + 1) (w\<lparr>local_w := local_w w @ [anchor base (Clean t)]\<rparr>) ts = (e, w1)"
        by (simp add: Let_def)
      from Cons.IH[OF this] obtain new where
        n: "local_w w1 = (local_w w @ [anchor base (Clean t)]) @ new"
        and a: "\<forall>g\<in>set new. \<exists>s. Check s = None \<and> g = anchor base s"
        by auto
      have "local_w w1 = local_w w @ (anchor base (Clean t) # new) \<and>
        (\<forall>g\<in>set (anchor base (Clean t) # new). \<exists>s. Check s = None \<and> g = anchor base s)"
        using n a None by auto
      then show ?thesis by blast
    qed
  qed
qed

lemmas path_defs = filepath_Clean_def filepath_IsAbs_def filepath_Join_def filepath_Base_def
  filepath_Dir_def filepath_Abs_def containsSep_def runes_def

text \<open>
  C2. \<^verbatim>\<open>AddFile\<close> checks a line before it rewrites it, and stores the rewritten string
  unchecked. From the file \<^verbatim>\<open>/[/match.conf\<close> the valid line \<^verbatim>\<open>a/b\<close> is stored as
  \<^verbatim>\<open>/[/a/b\<close>, which \<^verbatim>\<open>Check\<close> rejects (\<open>ErrIncompleteClass\<close>); from the file
  \<^verbatim>\<open>/d/match.conf\<close> the valid line \<^verbatim>\<open>x/\/\<close> is stored as \<^verbatim>\<open>/d/x/\\<close>, because
  \<^verbatim>\<open>filepath.Join\<close> removes the trailing separator, and \<^verbatim>\<open>Check\<close> rejects it
  (\<open>ErrTrailingEscape\<close>).
\<close>

theorem AddFile_stores_unchecked_path_pattern:
  "Worker_AddFile (fs_lines (runes ''/[/match.conf'') [runes ''a/b''])
     \<lparr>cwd = runes ''/'', local_w = [], global_w = []\<rparr> (runes ''/[/match.conf'') =
     (None, \<lparr>cwd = runes ''/'', local_w = [runes ''/[/a/b''], global_w = []\<rparr>) \<and>
   Check (runes ''a/b'') = None \<and>
   Check (runes ''/[/a/b'') =
     Some \<lparr>Err = ErrIncompleteClass, Column = 5, Line = - 1, File = []\<rparr> \<and>
   Worker_AddFile (fs_lines (runes ''/d/match.conf'') [runes ''x/'' @ [rn CHR 0x5C, rn CHR ''/'']])
     \<lparr>cwd = runes ''/'', local_w = [], global_w = []\<rparr> (runes ''/d/match.conf'') =
     (None, \<lparr>cwd = runes ''/'', local_w = [runes ''/d/x/'' @ [rn CHR 0x5C]], global_w = []\<rparr>) \<and>
   Check (runes ''x/'' @ [rn CHR 0x5C, rn CHR ''/'']) = None \<and>
   Check (runes ''/d/x/'' @ [rn CHR 0x5C]) =
     Some \<lparr>Err = ErrTrailingEscape, Column = 5, Line = - 1, File = []\<rparr>"
  by (simp add: Worker_AddFile_def fs_lines_def anchor_def path_defs Clean_defs Check_defs)

section \<open>Properties of matching\<close>

lemma filepath_Clean_nonempty: "filepath_Clean p \<noteq> []"
  by (simp add: filepath_Clean_def Let_def runes_def)

text \<open>
  C4. \<^verbatim>\<open>filepath.Clean\<close> never returns the empty string (of the empty string it returns
  \<^verbatim>\<open>.\<close>), so the test \<^verbatim>\<open>path == ""\<close> of \<^verbatim>\<open>Worker.Matches\<close> never holds: the empty
  candidate is matched as the working directory. With the pattern \<^verbatim>\<open>*\<close> stored and the
  working directory \<^verbatim>\<open>/home\<close>, \<^verbatim>\<open>Worker.Matches("")\<close> is what the glob primitive answers
  for \<^verbatim>\<open>*\<close> on \<^verbatim>\<open>home\<close>, and \<^verbatim>\<open>Matcher.Matches("")\<close> is what it answers for \<^verbatim>\<open>*\<close> on
  \<^verbatim>\<open>.\<close>, the base name of the empty path: both are matches for \<^verbatim>\<open>filepath.Match\<close>.
\<close>

theorem Matches_empty_candidate:
  "filepath_Clean [] = runes ''.'' \<and>
   filepath_Clean p \<noteq> [] \<and>
   Worker_Matches gm \<lparr>cwd = runes ''/home'', local_w = [], global_w = [runes ''*'']\<rparr> [] =
     (case gm (runes ''*'') (runes ''home'') of Inl err \<Rightarrow> Panic err | Inr b \<Rightarrow> Return b) \<and>
   Matcher_Matches gm \<lparr>ErrHandler = None, config = [], global = [runes ''*'']\<rparr> [] =
     (case gm (runes ''*'') (runes ''.'') of Inl err \<Rightarrow> Panic err | Inr b \<Rightarrow> Return b)"
proof -
  have 1: "filepath_Clean [] = runes ''.''"
    by (simp add: path_defs)
  have 2: "filepath_Clean (filepath_Join (runes ''/home'') (runes ''.'')) = runes ''/home''"
    by (simp add: path_defs)
  have 3: "filepath_Base (runes ''/home'') = runes ''home''"
    by (simp add: path_defs)
  have 4: "filepath_Base [] = runes ''.''" "filepath_Base (runes ''.'') = runes ''.''"
    by (simp_all add: path_defs)
  have 5: "\<not> containsSep (runes ''*'')" "runes ''*'' \<noteq> []" "\<not> filepath_IsAbs (runes ''.'')"
    "runes ''.'' \<noteq> []"
    by (simp_all add: path_defs)
  have w: "Worker_Matches gm \<lparr>cwd = runes ''/home'', local_w = [], global_w = [runes ''*'']\<rparr> [] =
     (case gm (runes ''*'') (runes ''home'') of Inl err \<Rightarrow> Panic err | Inr b \<Rightarrow> Return b)"
    by (simp add: Worker_Matches_def match_def Let_def 1 2 3 5 split: sum.splits)
  have m: "Matcher_Matches gm \<lparr>ErrHandler = None, config = [], global = [runes ''*'']\<rparr> [] =
     (case gm (runes ''*'') (runes ''.'') of Inl err \<Rightarrow> Panic err | Inr b \<Rightarrow> Return b)"
    by (simp add: Matcher_Matches_def match_def 4 5 split: sum.splits)
  from 1 w m filepath_Clean_nonempty show ?thesis by blast
qed

lemma glob_term_last:
  "glob_term t \<Longrightarrow> t \<noteq> [] \<and> (last t = rn CHR ''['' \<longrightarrow> t = [rn CHR 0x5C, rn CHR ''['']) "
  by (induction rule: glob_term.induct) auto

lemma glob_pattern_last:
  "glob_pattern p \<Longrightarrow> p \<noteq> [] \<Longrightarrow> last p = rn CHR ''['' \<Longrightarrow>
   \<exists>q. p = q @ [rn CHR 0x5C, rn CHR ''['']"
proof (induction rule: glob_pattern.induct)
  case none
  then show ?case by simp
next
  case (snoc p t)
  from glob_term_last[OF snoc.hyps(2)] snoc.prems have "t = [rn CHR 0x5C, rn CHR ''['']"
    by simp
  then show ?case by blast
qed

lemma star_bracket_not_pattern: "\<not> glob_pattern (runes ''*['')"
proof
  assume "glob_pattern (runes ''*['')"
  from glob_pattern_last[OF this] obtain q where q: "runes ''*['' = q @ [rn CHR 0x5C, rn CHR ''['']"
    by (auto simp: runes_def)
  then have "length q = 0" by (simp add: runes_def)
  with q show False by (simp add: runes_def)
qed

lemma glob_pattern_example: "glob_pattern (runes ''ab[c-d]*'')"
proof -
  have c: "class_char [rn CHR ''c'']" "class_char [rn CHR ''d'']"
    by (auto intro: class_char.intros)
  have "character_range ([rn CHR ''c''] @ rn CHR ''-'' # [rn CHR ''d''])"
    using c by (rule character_range.lo_hi)
  then have "glob_term (rn CHR ''['' # ([rn CHR ''c''] @ rn CHR ''-'' # [rn CHR ''d'']) @ [rn CHR '']''])"
    by (intro glob_term.cls character_ranges.one)
  then have t: "glob_term (runes ''[c-d]'')" by (simp add: runes_def)
  have a: "glob_term [rn CHR ''a'']" "glob_term [rn CHR ''b'']"
    by (rule glob_term.lit; simp)+
  have "glob_pattern (((([] @ [rn CHR ''a'']) @ [rn CHR ''b'']) @ runes ''[c-d]'') @ [rn CHR ''*''])"
    by (intro glob_pattern.snoc glob_pattern.none a t glob_term.star)
  then show ?thesis by (simp add: runes_def)
qed

text \<open>
  C1. \<^verbatim>\<open>Check\<close> accepts \<^verbatim>\<open>*[\<close>, which is not a pattern of the documented syntax: in state
  \<open>Star\<close> any rune but \<^verbatim>\<open>*\<close> leads to \<open>Regular\<close> without being examined.
  \<^verbatim>\<open>Matcher.Add\<close> stores it, and \<^verbatim>\<open>Matcher.Matches("a")\<close> hands it to the glob primitive;
  an error of the primitive there is a panic.
\<close>

theorem Check_accepts_malformed_pattern:
  "Check (runes ''*['') = None \<and>
   \<not> glob_pattern (runes ''*['') \<and>
   Matcher_Add (New []) [runes ''*['']
     = (None, \<lparr>ErrHandler = None, config = [], global = [runes ''*['']\<rparr>) \<and>
   Matcher_Matches gm \<lparr>ErrHandler = None, config = [], global = [runes ''*['']\<rparr> (runes ''a'') =
     (case gm (runes ''*['') (runes ''a'') of Inl err \<Rightarrow> Panic err | Inr b \<Rightarrow> Return b)"
proof -
  have c: "Check (runes ''*['') = None"
    by (simp add: Check_defs)
  have s: "\<not> containsSep (runes ''*['')" "runes ''*['' \<noteq> []"
    by (simp_all add: containsSep_def runes_def)
  have b: "filepath_Base (runes ''a'') = runes ''a''"
    by (simp add: filepath_Base_def runes_def)
  have a: "Matcher_Add (New []) [runes ''*['']
     = (None, \<lparr>ErrHandler = None, config = [], global = [runes ''*['']\<rparr>)"
    by (simp add: Matcher_Add_def New_def add_def c s)
  have m: "Matcher_Matches gm \<lparr>ErrHandler = None, config = [], global = [runes ''*['']\<rparr> (runes ''a'') =
     (case gm (runes ''*['') (runes ''a'') of Inl err \<Rightarrow> Panic err | Inr b \<Rightarrow> Return b)"
    by (simp add: Matcher_Matches_def match_def s b split: sum.splits)
  from c star_bracket_not_pattern a m show ?thesis by blast
qed

section \<open>Properties of the ancestor walk\<close>

text \<open>
  C9. From the directory \<^verbatim>\<open>/a\<close> the loop of \<^verbatim>\<open>NewWorker\<close> loads \<^verbatim>\<open>/a/match.conf\<close>, moves
  to \<^verbatim>\<open>/\<close> and breaks there: whatever the file system, the worker it returns is the one
  after that single \<^verbatim>\<open>AddFile\<close>. When \<^verbatim>\<open>/match.conf\<close> is the only file and holds
  \<^verbatim>\<open>foo\<close>, the worker for \<^verbatim>\<open>/a\<close> has no local pattern, while the worker for \<^verbatim>\<open>/\<close> has
  \<^verbatim>\<open>foo\<close>.
\<close>

theorem NewWorker_skips_root:
  "NewWorker (Suc n) (fs_lines (runes ''/match.conf'') [runes ''foo''])
     (New (runes ''match.conf'')) (runes ''/a'') =
     Some (Inr \<lparr>cwd = runes ''/a'', local_w = [], global_w = []\<rparr>) \<and>
   NewWorker (Suc n) (fs_lines (runes ''/match.conf'') [runes ''foo''])
     (New (runes ''match.conf'')) (runes ''/'') =
     Some (Inr \<lparr>cwd = runes ''/'', local_w = [runes ''foo''], global_w = []\<rparr>) \<and>
   walk (Suc n) os \<lparr>ErrHandler = h, config = runes ''match.conf'', global = g\<rparr> (runes ''/a'') w =
     (case Worker_AddFile os w (runes ''/a/match.conf'') of
        (err, w1) \<Rightarrow>
          (case handle \<lparr>ErrHandler = h, config = runes ''match.conf'', global = g\<rparr> err of
             Some e \<Rightarrow> Some (Inl e)
           | None \<Rightarrow> Some (Inr w1)))"
proof -
  have j: "filepath_Join (runes ''/a'') (runes ''match.conf'') = runes ''/a/match.conf''"
    "filepath_Join (runes ''/'') (runes ''match.conf'') = runes ''/match.conf''"
    by (simp_all add: path_defs)
  have u: "filepath_Clean (filepath_Join (runes ''/a'') (runes ''..'')) = runes ''/''"
    "filepath_Clean (filepath_Join (runes ''/'') (runes ''..'')) = runes ''/''"
    by (simp_all add: path_defs)
  have c: "filepath_Clean (runes ''/a'') = runes ''/a''" "filepath_Clean (runes ''/'') = runes ''/''"
    "filepath_IsAbs (runes ''/a'')" "filepath_IsAbs (runes ''/'')"
    "runes ''/a'' \<noteq> []" "runes ''/'' \<noteq> []" "runes ''match.conf'' \<noteq> []"
    by (simp_all add: path_defs)
  have a: "filepath_Abs os1 (runes ''/a/match.conf'') = Inr (runes ''/a/match.conf'')"
    "filepath_Abs os1 (runes ''/match.conf'') = Inr (runes ''/match.conf'')" for os1
    by (simp_all add: path_defs)
  have ne: "runes ''/a/match.conf'' \<noteq> runes ''/match.conf''"
    by (simp add: runes_def)
  have f1: "Worker_AddFile (fs_lines (runes ''/match.conf'') [runes ''foo'']) w1
      (runes ''/a/match.conf'') = (Some ErrNotExist, w1)" for w1
    by (simp add: Worker_AddFile_def a fs_lines_def ne)
  have f2: "Worker_AddFile (fs_lines (runes ''/match.conf'') [runes ''foo''])
      \<lparr>cwd = runes ''/'', local_w = [], global_w = []\<rparr> (runes ''/match.conf'') =
      (None, \<lparr>cwd = runes ''/'', local_w = [runes ''foo''], global_w = []\<rparr>)"
  proof -
    have d: "filepath_Dir (runes ''/match.conf'') = runes ''/''"
      by (simp add: path_defs)
    have s: "scanLines (runes ''/'') (runes ''/match.conf'') 0
        \<lparr>cwd = runes ''/'', local_w = [], global_w = []\<rparr> [runes ''foo''] =
        (None, \<lparr>cwd = runes ''/'', local_w = [runes ''foo''], global_w = []\<rparr>)"
      by (simp add: anchor_def containsSep_def Clean_defs Check_defs)
    show ?thesis
      by (simp add: Worker_AddFile_def a fs_lines_def d s del: scanLines.simps)
  qed
  have 1: "NewWorker (Suc n) (fs_lines (runes ''/match.conf'') [runes ''foo''])
     (New (runes ''match.conf'')) (runes ''/a'') =
     Some (Inr \<lparr>cwd = runes ''/a'', local_w = [], global_w = []\<rparr>)"
    by (simp add: NewWorker_def New_def c j u f1 handle_def os_IsNotExist_def)
  have 2: "NewWorker (Suc n) (fs_lines (runes ''/match.conf'') [runes ''foo''])
     (New (runes ''match.conf'')) (runes ''/'') =
     Some (Inr \<lparr>cwd = runes ''/'', local_w = [runes ''foo''], global_w = []\<rparr>)"
    by (simp add: NewWorker_def New_def c j u f2 handle_def)
  have 3: "walk (Suc n) os \<lparr>ErrHandler = h, config = runes ''match.conf'', global = g\<rparr> (runes ''/a'') w =
     (case Worker_AddFile os w (runes ''/a/match.conf'') of
        (err, w1) \<Rightarrow>
          (case handle \<lparr>ErrHandler = h, config = runes ''match.conf'', global = g\<rparr> err of
             Some e \<Rightarrow> Some (Inl e)
           | None \<Rightarrow> Some (Inr w1)))"
    by (simp add: j u split: prod.splits option.splits)
  from 1 2 3 show ?thesis by blast
qed

end
